theory Spec2Isabelle
  imports Complex_Main "HOL-Library.Log_Nat"
begin

section \<open>The EDL builder of \<open>src/video/scripts/generate_edl.py\<close>\<close>

text \<open>
  \<open>build_edl(beats, raw_duration)\<close> lays out a timeline: an intro card, then for every
  consecutive pair of scene boundaries an optional interstitial card and a clip, then an
  outro card; a fade transition is recorded after every segment but the outro.

  Numbers. The Python values are floats (IEEE binary64). A finite double is a rational
  number, and the model computes with these exact values in \<^typ>\<open>rat\<close>: a float sum or
  difference is the exact sum or difference rounded to the nearest double, a tie going to
  the even significand (\<open>fadd\<close>, \<open>fsub\<close>); \<open>min\<close> and \<open>>\<close> compare exact values; a float
  literal such as \<open>1.2\<close> is the double nearest to \<open>12/10\<close>. \<open>round(x, 3)\<close> is the multiple of
  \<open>1/1000\<close> nearest to the exact value of \<open>x\<close>, a tie going to the even multiple. Python
  returns the double nearest to that decimal, which prints as that decimal; the model keeps
  the decimal itself, as the JSON document shows it. In \<open>build_edl\<close> a rounded value is only
  stored in the result and never used in a later sum. Infinities, NaN and overflow are
  outside this model.

  Input. A beat is the dict \<open>{"label": ..., "t": ...}\<close> of one line of the beats file,
  modelled as a record with both fields present, \<open>t\<close> being the exact value of the
  float; a dict without one of the keys (a \<open>KeyError\<close> in
  \<open>beat_map[b["label"]] = b["t"]\<close>) is outside the input type.
\<close>

subsection \<open>Data\<close>

type_synonym seconds = rat

record beat =
  label :: string
  t :: seconds

text \<open>The \<open>"motion"\<close> dict of a clip.\<close>

record motion =
  scaleFrom :: rat
  scaleTo :: rat

text \<open>
  A segment is a dict with \<open>"kind": "card"\<close> or \<open>"kind": "clip"\<close>. The keys \<open>"text"\<close>,
  \<open>"subtext"\<close>, \<open>"label"\<close>, \<open>"in"\<close>, \<open>"out"\<close>, \<open>"start"\<close>, \<open>"end"\<close> and \<open>"motion"\<close> are
  the selectors below (renamed where the key is an Isabelle keyword or already a field of
  \<^typ>\<open>beat\<close>), and \<open>"kind"\<close> is the constructor. An interstitial card has no
  \<open>"subtext"\<close> key: \<open>None\<close>.
\<close>

datatype segment =
    is_card: Card (card_text: string) (card_subtext: "string option")
         (seg_start: seconds) (seg_end: seconds)
  | is_clip: Clip (clip_label: string) (clip_in: seconds) (clip_out: seconds)
         (seg_start: seconds) (seg_end: seconds) (clip_motion: motion)

text \<open>The keys \<open>"type"\<close>, \<open>"at"\<close> and \<open>"dur"\<close> of a transition.\<close>

record transition =
  tr_type :: string
  tr_at :: seconds
  tr_dur :: seconds

record frame_size =
  w :: nat
  h :: nat

record inputs =
  video :: string

record edl =
  fps :: nat
  size_edl :: frame_size
  durationSec :: seconds
  inputs_edl :: inputs
  segments :: "segment list"
  transitions :: "transition list"

subsection \<open>Python floats\<close>

text \<open>Rounding to the nearest integer, a tie going to the even one.\<close>

definition round_half_even :: "rat \<Rightarrow> int" where
  "round_half_even y =
    (let f = \<lfloor>y\<rfloor>; d = y - of_int f
     in if d < 1 / 2 then f
        else if 1 / 2 < d then f + 1
        else if even f then f else f + 1)"

text \<open>The binary exponent of a positive number: \<open>2 ^ e \<le> x < 2 ^ (e + 1)\<close>.\<close>

definition ilog2 :: "rat \<Rightarrow> int" where
  "ilog2 x = (if 1 \<le> x then bitlen \<lfloor>x\<rfloor> - 1 else - bitlen (\<lceil>1 / x\<rceil> - 1))"

text \<open>
  The double nearest to \<open>x\<close>: the significand has 53 bits, so \<open>x\<close> is rounded to a multiple
  of \<open>2 ^ (e - 52)\<close>. The exponent is not bounded here: a sum or difference of two doubles
  that falls below the normal range is exact in binary64 as it is here, and overflow is
  outside the model.
\<close>

definition double_round :: "rat \<Rightarrow> rat" where
  "double_round x =
    (if x = 0 then 0
     else let q = 2 powi (ilog2 \<bar>x\<bar> - 52)
          in of_int (round_half_even (x / q)) * q)"

text \<open>Python's \<open>x + y\<close> and \<open>x - y\<close> on floats.\<close>

definition fadd :: "rat \<Rightarrow> rat \<Rightarrow> rat" where
  "fadd x y = double_round (x + y)"

definition fsub :: "rat \<Rightarrow> rat \<Rightarrow> rat" where
  "fsub x y = double_round (x - y)"

text \<open>
  Python's \<open>round(x, ndigits)\<close> on a float, for \<open>ndigits \<ge> 0\<close>: the nearest multiple of
  \<open>10 ^ (- ndigits)\<close>, a tie going to the even multiple.
\<close>

definition py_round :: "rat \<Rightarrow> nat \<Rightarrow> rat" where
  "py_round x ndigits = of_int (round_half_even (x * 10 ^ ndigits)) / 10 ^ ndigits"

subsection \<open>Configuration (lines 25 to 64)\<close>

definition FPS :: nat where
  "FPS = 30"

definition SIZE :: frame_size where
  "SIZE = \<lparr>w = 1920, h = 1080\<rparr>"

text \<open>
  The three card durations enter sums, so they are the doubles that the literals denote.
  \<open>FADE_DURATION\<close> and the \<open>scaleTo\<close> of the motion are only stored in the result,
  unrounded; they are kept as the decimals they print as.
\<close>

definition INTRO_DURATION :: seconds where
  "INTRO_DURATION = double_round (12 / 10)"

definition INTERSTITIAL_DURATION :: seconds where
  "INTERSTITIAL_DURATION = double_round (7 / 10)"

definition OUTRO_DURATION :: seconds where
  "OUTRO_DURATION = double_round (15 / 10)"

definition FADE_DURATION :: seconds where
  "FADE_DURATION = 2 / 10"

text \<open>The dict \<open>BEAT_LABELS\<close>; a value \<open>None\<close> of the Python dict is \<open>None\<close> here.\<close>

definition BEAT_LABELS :: "(string \<times> string option) list" where
  "BEAT_LABELS =
    [(''open'', None),
     (''code_visible'', None),
     (''navigate'', None),
     (''multicursor_start'', Some ''multi-cursor''),
     (''multicursor_active'', None),
     (''multicursor_typed'', None),
     (''split_view'', Some ''split view''),
     (''csv_view'', Some ''csv editor''),
     (''search'', Some ''search''),
     (''outline'', Some ''outline''),
     (''workspace'', Some ''workspace''),
     (''command_palette'', Some ''command palette''),
     (''end'', None)]"

definition SCENE_BEATS :: "string list" where
  "SCENE_BEATS =
    [''open'', ''multicursor_start'', ''split_view'', ''csv_view'',
     ''search'', ''outline'', ''command_palette'', ''end'']"

subsection \<open>\<open>dict.get\<close>\<close>

text \<open>
  \<open>BEAT_LABELS.get(label)\<close> is \<open>None\<close> for a missing key and for a key whose value is
  \<open>None\<close>.
\<close>

definition BEAT_LABELS_get :: "string \<Rightarrow> string option" where
  "BEAT_LABELS_get lbl = (case map_of BEAT_LABELS lbl of None \<Rightarrow> None | Some v \<Rightarrow> v)"

subsection \<open>\<open>build_edl\<close> (lines 91 to 197)\<close>

text \<open>Lines 94 to 96: the dict \<open>beat_map\<close>; a later beat overwrites an earlier one.\<close>

definition beat_map :: "beat list \<Rightarrow> (string \<rightharpoonup> seconds)" where
  "beat_map beats = foldl (\<lambda>m b. m(label b \<mapsto> t b)) Map.empty beats"

text \<open>Lines 118 to 121: the boundaries in the order of \<open>SCENE_BEATS\<close>.\<close>

fun scene_times_of :: "(string \<rightharpoonup> seconds) \<Rightarrow> string list \<Rightarrow> (string \<times> seconds) list" where
  "scene_times_of m [] = []"
| "scene_times_of m (lbl # rest) =
    (case m lbl of
       None \<Rightarrow> scene_times_of m rest
     | Some v \<Rightarrow> (lbl, v) # scene_times_of m rest)"

text \<open>
  The builder's local state: the lists \<open>segments\<close> and \<open>transitions\<close> (\<open>segs\<close> and
  \<open>trs\<close> below, the full names being the fields of the result) and \<open>timeline_pos\<close>.
\<close>

type_synonym builder = "segment list \<times> transition list \<times> seconds"

definition fade :: "seconds \<Rightarrow> transition" where
  "fade x = \<lparr>tr_type = ''fade'', tr_at = py_round x 3, tr_dur = FADE_DURATION\<rparr>"

text \<open>Lines 103 to 115.\<close>

definition intro_card :: "builder \<Rightarrow> builder" where
  "intro_card st =
    (case st of (segs, trs, timeline_pos) \<Rightarrow>
      (segs @ [Card ''Token'' (Some ''a minimal text editor'')
                 (py_round timeline_pos 3) (py_round (fadd timeline_pos INTRO_DURATION) 3)],
       trs @ [fade (fadd timeline_pos INTRO_DURATION)],
       fadd timeline_pos INTRO_DURATION))"

text \<open>
  Lines 127 to 141: \<open>if display_text:\<close> holds for a string that is not empty, and
  fails for \<open>None\<close> and for the empty string.
\<close>

definition interstitial_card :: "string \<Rightarrow> builder \<Rightarrow> builder" where
  "interstitial_card lbl st =
    (case st of (segs, trs, timeline_pos) \<Rightarrow>
      (case BEAT_LABELS_get lbl of
         Some display_text \<Rightarrow>
           if display_text \<noteq> [] then
             (segs @ [Card display_text None
                        (py_round timeline_pos 3)
                        (py_round (fadd timeline_pos INTERSTITIAL_DURATION) 3)],
              trs @ [fade (fadd timeline_pos INTERSTITIAL_DURATION)],
              fadd timeline_pos INTERSTITIAL_DURATION)
           else st
       | None \<Rightarrow> st))"

text \<open>
  Lines 143 to 152: \<open>(clip_in, clip_out, clip_duration)\<close> for the boundaries \<open>start_t\<close>
  and \<open>end_t\<close>.
\<close>

definition max_clip :: seconds where
  "max_clip = 5"

definition clip_points :: "seconds \<Rightarrow> seconds \<Rightarrow> seconds \<Rightarrow> seconds \<times> seconds \<times> seconds" where
  "clip_points start_t end_t raw_duration =
    (let clip_in = start_t;
         clip_out = min end_t raw_duration;
         clip_duration = fsub clip_out clip_in
     in if clip_duration > max_clip
        then (clip_in, fadd clip_in max_clip, max_clip)
        else (clip_in, clip_out, clip_duration))"

text \<open>Lines 154 to 171.\<close>

definition clip_segment :: "string \<Rightarrow> seconds \<Rightarrow> seconds \<Rightarrow> seconds \<Rightarrow> builder \<Rightarrow> builder" where
  "clip_segment lbl start_t end_t raw_duration st =
    (case st of (segs, trs, timeline_pos) \<Rightarrow>
      (case clip_points start_t end_t raw_duration of (c_in, c_out, clip_duration) \<Rightarrow>
        (segs @ [Clip lbl (py_round c_in 3) (py_round c_out 3)
                   (py_round timeline_pos 3) (py_round (fadd timeline_pos clip_duration) 3)
                   \<lparr>scaleFrom = 1, scaleTo = 102 / 100\<rparr>],
         trs @ [fade (fadd timeline_pos clip_duration)],
         fadd timeline_pos clip_duration)))"

text \<open>Lines 123 to 171: the body of the loop, at index \<open>i\<close>.\<close>

definition scene_step :: "(string \<times> seconds) list \<Rightarrow> seconds \<Rightarrow> builder \<Rightarrow> nat \<Rightarrow> builder" where
  "scene_step scene_times raw_duration st i =
    (case scene_times ! i of (lbl, start_t) \<Rightarrow>
      (case scene_times ! (i + 1) of (_, end_t) \<Rightarrow>
        clip_segment lbl start_t end_t raw_duration (interstitial_card lbl st)))"

text \<open>
  \<open>for i in range(len(scene_times) - 1)\<close>: no iteration when \<open>scene_times\<close> has fewer
  than two entries (\<open>range(-1)\<close> and \<open>range(0)\<close> are empty), so both indices are in range.
\<close>

definition scenes_loop :: "(string \<times> seconds) list \<Rightarrow> seconds \<Rightarrow> builder \<Rightarrow> builder" where
  "scenes_loop scene_times raw_duration st =
    foldl (scene_step scene_times raw_duration) st [0 ..< length scene_times - 1]"

text \<open>Lines 173 to 181: the outro card; no transition follows it.\<close>

definition outro_card :: "builder \<Rightarrow> builder" where
  "outro_card st =
    (case st of (segs, trs, timeline_pos) \<Rightarrow>
      (segs @ [Card ''token-editor.com'' (Some '''')
                 (py_round timeline_pos 3) (py_round (fadd timeline_pos OUTRO_DURATION) 3)],
       trs,
       fadd timeline_pos OUTRO_DURATION))"

definition build_edl :: "beat list \<Rightarrow> seconds \<Rightarrow> edl" where
  "build_edl beats raw_duration =
    (let scene_times = scene_times_of (beat_map beats) SCENE_BEATS;
         st = outro_card (scenes_loop scene_times raw_duration (intro_card ([], [], 0)))
     in case st of (segs, trs, timeline_pos) \<Rightarrow>
        \<lparr>fps = FPS, size_edl = SIZE, durationSec = py_round timeline_pos 3,
         inputs_edl = \<lparr>video = ''recordings/raw.mp4''\<rparr>,
         segments = segs, transitions = trs\<rparr>)"

subsection \<open>Vocabulary of the properties\<close>

text \<open>A timestamp that \<open>round(x, 3)\<close> leaves as it is.\<close>

definition ms_rounded :: "seconds \<Rightarrow> bool" where
  "ms_rounded x = (py_round x 3 = x)"

text \<open>A value that rounding to a double leaves as it is.\<close>

definition is_double :: "rat \<Rightarrow> bool" where
  "is_double x = (double_round x = x)"

text \<open>The clip segments of a segment list, in their order.\<close>

definition clips_of :: "segment list \<Rightarrow> segment list" where
  "clips_of segs = filter is_clip segs"

text \<open>
  The pattern of every emission but the outro: a segment is appended, a fade at the new
  position is appended, and the position advances by \<open>d\<close>.
\<close>

definition place :: "segment \<Rightarrow> seconds \<Rightarrow> builder \<Rightarrow> builder" where
  "place s d st =
    (case st of (segs, trs, timeline_pos) \<Rightarrow>
      (segs @ [s], trs @ [fade (fadd timeline_pos d)], fadd timeline_pos d))"

text \<open>The clip that the loop emits at index \<open>i\<close> when the position is \<open>p\<close>.\<close>

definition clip_at :: "(string \<times> seconds) list \<Rightarrow> seconds \<Rightarrow> seconds \<Rightarrow> nat \<Rightarrow> segment" where
  "clip_at scene_times raw_duration p i =
    (case scene_times ! i of (lbl, start_t) \<Rightarrow>
      (case scene_times ! (i + 1) of (_, end_t) \<Rightarrow>
        (case clip_points start_t end_t raw_duration of (c_in, c_out, clip_duration) \<Rightarrow>
          Clip lbl (py_round c_in 3) (py_round c_out 3)
            (py_round p 3) (py_round (fadd p clip_duration) 3)
            \<lparr>scaleFrom = 1, scaleTo = 102 / 100\<rparr>)))"

text \<open>The invariants of the builder's state between two emissions.\<close>

definition timeline_inv :: "builder \<Rightarrow> bool" where
  "timeline_inv st =
    (case st of (segs, trs, timeline_pos) \<Rightarrow>
      segs \<noteq> [] \<and> seg_start (segs ! 0) = 0 \<and>
      (\<forall>i. Suc i < length segs \<longrightarrow> seg_start (segs ! Suc i) = seg_end (segs ! i)) \<and>
      seg_end (last segs) = py_round timeline_pos 3)"

definition fades_inv :: "builder \<Rightarrow> bool" where
  "fades_inv st =
    (case st of (segs, trs, timeline_pos) \<Rightarrow>
      length trs = length segs \<and>
      (\<forall>i < length trs.
         tr_type (trs ! i) = ''fade'' \<and> tr_at (trs ! i) = seg_end (segs ! i)))"

definition rounded_inv :: "builder \<Rightarrow> bool" where
  "rounded_inv st =
    (case st of (segs, trs, timeline_pos) \<Rightarrow>
      (\<forall>s \<in> set segs.
         ms_rounded (seg_start s) \<and> ms_rounded (seg_end s) \<and>
         (is_clip s \<longrightarrow> ms_rounded (clip_in s) \<and> ms_rounded (clip_out s))) \<and>
      (\<forall>x \<in> set trs. ms_rounded (tr_at x)))"

definition builder_inv :: "builder \<Rightarrow> bool" where
  "builder_inv st = (timeline_inv st \<and> fades_inv st \<and> rounded_inv st)"

section \<open>Rounding\<close>

subsection \<open>Rounding to an integer\<close>

lemma round_half_even_of_int: "round_half_even (of_int n) = n"
  by (simp add: round_half_even_def)

lemma round_half_even_bounds: "\<lfloor>y\<rfloor> \<le> round_half_even y \<and> round_half_even y \<le> \<lfloor>y\<rfloor> + 1"
  by (simp add: round_half_even_def Let_def)

lemma round_half_even_mono:
  assumes "x \<le> y"
  shows "round_half_even x \<le> round_half_even y"
proof (cases "\<lfloor>x\<rfloor> = \<lfloor>y\<rfloor>")
  case True
  from assms True have "x - of_int \<lfloor>x\<rfloor> \<le> y - of_int \<lfloor>y\<rfloor>"
    by simp
  with True show ?thesis
    by (auto simp: round_half_even_def Let_def)
next
  case False
  with assms have "\<lfloor>x\<rfloor> < \<lfloor>y\<rfloor>"
    using floor_mono [of x y] by linarith
  then have "\<lfloor>x\<rfloor> + 1 \<le> \<lfloor>y\<rfloor>"
    by simp
  with round_half_even_bounds [of x] round_half_even_bounds [of y] show ?thesis
    by linarith
qed

lemma round_half_even_minus: "round_half_even (- y) = - round_half_even y"
proof (cases "y = of_int \<lfloor>y\<rfloor>")
  case True
  then obtain n :: int where "y = of_int n" ..
  then have "- y = of_int (- n)"
    by simp
  then have "round_half_even (- y) = - n"
    by (simp only: round_half_even_of_int)
  with \<open>y = of_int n\<close> show ?thesis
    by (simp add: round_half_even_of_int)
next
  case False
  define f where "f = \<lfloor>y\<rfloor>"
  define d where "d = y - of_int f"
  have d: "0 < d" "d < 1"
    using False unfolding d_def f_def by linarith+
  have fl: "\<lfloor>- y\<rfloor> = - f - 1"
    using d unfolding d_def by (intro floor_unique) simp_all
  have r1: "round_half_even y = (if d < 1 / 2 then f else if 1 / 2 < d then f + 1
             else if even f then f else f + 1)"
    by (simp add: round_half_even_def Let_def d_def f_def)
  have "- y - of_int (- f - 1) = 1 - d"
    by (simp add: d_def)
  then have r2: "round_half_even (- y) = (if 1 - d < 1 / 2 then - f - 1
             else if 1 / 2 < 1 - d then - f
             else if even (- f - 1) then - f - 1 else - f)"
    by (simp add: round_half_even_def Let_def fl)
  show ?thesis
  proof (cases "d < 1 / 2")
    case True
    with r1 r2 show ?thesis by simp
  next
    case False
    show ?thesis
    proof (cases "1 / 2 < d")
      case True
      with r1 r2 show ?thesis by simp
    next
      case False
      with \<open>\<not> d < 1 / 2\<close> have "d = 1 / 2"
        by simp
      with r1 r2 show ?thesis
        by (cases "even f") simp_all
    qed
  qed
qed

subsection \<open>The binary exponent\<close>

lemma bitlen_pos: "0 < n \<Longrightarrow> 1 \<le> bitlen n"
  using bitlen_eq_zero_iff [of n] bitlen_nonneg [of n] by linarith

lemma ilog2_bounds_ge1:
  assumes "1 \<le> (x::rat)"
  shows "2 powi (ilog2 x) \<le> x \<and> x < 2 powi (ilog2 x + 1)"
proof -
  define n where "n = \<lfloor>x\<rfloor>"
  have n: "0 < n"
    using assms unfolding n_def by linarith
  define b where "b = bitlen n"
  have b: "1 \<le> b"
    using n unfolding b_def by (rule bitlen_pos)
  have bb: "2 ^ nat (b - 1) \<le> n" "n < 2 ^ nat b"
    using bitlen_bounds [OF n] by (simp_all add: b_def)
  have e: "ilog2 x = b - 1"
    using assms by (simp add: ilog2_def b_def n_def)
  have "(2::rat) powi (b - 1) = of_int (2 ^ nat (b - 1))"
    using b by (simp add: power_int_nonneg_exp)
  also have "\<dots> \<le> of_int n"
    using bb(1) by (simp only: of_int_le_iff)
  also have "\<dots> \<le> x"
    unfolding n_def by simp
  finally have lo: "2 powi (b - 1) \<le> x" .
  have "n + 1 \<le> 2 ^ nat b"
    using bb(2) by simp
  then have "(of_int (n + 1) :: rat) \<le> of_int (2 ^ nat b)"
    by (simp only: of_int_le_iff)
  moreover have "x < of_int (n + 1)"
    unfolding n_def by linarith
  ultimately have "x < of_int (2 ^ nat b)"
    by linarith
  also have "\<dots> = 2 powi b"
    using b by (simp add: power_int_nonneg_exp)
  finally have hi: "x < 2 powi (b - 1 + 1)"
    by simp
  from lo hi e show ?thesis
    by simp
qed

lemma ilog2_bounds_lt1:
  assumes "0 < (x::rat)" and "x < 1"
  shows "2 powi (ilog2 x) \<le> x \<and> x < 2 powi (ilog2 x + 1)"
proof -
  define y where "y = 1 / x"
  have y: "1 < y"
    using assms by (simp add: y_def)
  have x: "x = 1 / y"
    using assms by (simp add: y_def)
  define m where "m = \<lceil>y\<rceil> - 1"
  have m: "0 < m"
    using y unfolding m_def by linarith
  have my: "of_int m < y" "y \<le> of_int (m + 1)"
    unfolding m_def by linarith+
  define b where "b = bitlen m"
  have b: "1 \<le> b"
    using m unfolding b_def by (rule bitlen_pos)
  have bb: "2 ^ nat (b - 1) \<le> m" "m < 2 ^ nat b"
    using bitlen_bounds [OF m] by (simp_all add: b_def)
  have e: "ilog2 x = - b"
    using assms by (simp add: ilog2_def b_def m_def y_def)
  have "m + 1 \<le> 2 ^ nat b"
    using bb(2) by simp
  then have "(of_int (m + 1) :: rat) \<le> of_int (2 ^ nat b)"
    by (simp only: of_int_le_iff)
  with my(2) have "y \<le> of_int (2 ^ nat b)"
    by linarith
  also have "\<dots> = 2 powi b"
    using b by (simp add: power_int_nonneg_exp)
  finally have "y \<le> 2 powi b" .
  with y have "1 / (2 powi b) \<le> 1 / y"
    by (intro divide_left_mono) simp_all
  then have lo: "2 powi (- b) \<le> x"
    by (simp add: x power_int_minus_divide)
  have "(of_int (2 ^ nat (b - 1)) :: rat) \<le> of_int m"
    using bb(1) by (simp only: of_int_le_iff)
  with my(1) have "of_int (2 ^ nat (b - 1)) < y"
    by linarith
  moreover have "(of_int (2 ^ nat (b - 1)) :: rat) = 2 powi (b - 1)"
    using b by (simp add: power_int_nonneg_exp)
  ultimately have py: "2 powi (b - 1) < y"
    by simp
  have "(0::rat) < 2 powi (b - 1)"
    by simp
  with py y have "1 / y < 1 / (2 powi (b - 1))"
    by (intro divide_strict_left_mono mult_pos_pos) simp_all
  also have "\<dots> = 2 powi (- (b - 1))"
    by (rule power_int_minus_divide [symmetric])
  also have "- (b - 1) = - b + 1"
    by simp
  finally have hi: "x < 2 powi (- b + 1)"
    by (simp only: x)
  from lo hi e show ?thesis
    by simp
qed

lemma ilog2_bounds:
  assumes "0 < (x::rat)"
  shows "2 powi (ilog2 x) \<le> x" and "x < 2 powi (ilog2 x + 1)"
  using assms ilog2_bounds_ge1 [of x] ilog2_bounds_lt1 [of x] by (cases "1 \<le> x"; simp)+

lemma ilog2_unique:
  assumes "2 powi e \<le> (x::rat)" and "x < 2 powi (e + 1)"
  shows "ilog2 x = e"
proof -
  have x: "0 < x"
    using assms(1) zero_less_power_int [of "2::rat" e] by linarith
  have "\<not> ilog2 x < e"
  proof
    assume "ilog2 x < e"
    then have "ilog2 x + 1 \<le> e"
      by simp
    then have "(2::rat) powi (ilog2 x + 1) \<le> 2 powi e"
      by (intro power_int_increasing) simp_all
    with ilog2_bounds(2) [OF x] assms(1) show False
      by linarith
  qed
  moreover have "\<not> e < ilog2 x"
  proof
    assume "e < ilog2 x"
    then have "e + 1 \<le> ilog2 x"
      by simp
    then have "(2::rat) powi (e + 1) \<le> 2 powi (ilog2 x)"
      by (intro power_int_increasing) simp_all
    with ilog2_bounds(1) [OF x] assms(2) show False
      by linarith
  qed
  ultimately show ?thesis
    by linarith
qed

lemma ilog2_mono:
  assumes "0 < (x::rat)" and "x \<le> y"
  shows "ilog2 x \<le> ilog2 y"
proof (rule ccontr)
  assume "\<not> ilog2 x \<le> ilog2 y"
  then have "ilog2 y + 1 \<le> ilog2 x"
    by simp
  then have "(2::rat) powi (ilog2 y + 1) \<le> 2 powi (ilog2 x)"
    by (intro power_int_increasing) simp_all
  moreover have "0 < y"
    using assms by linarith
  ultimately show False
    using ilog2_bounds(1) [OF assms(1)] ilog2_bounds(2) [of y] assms(2) by linarith
qed

subsection \<open>Rounding to a double\<close>

lemma pow2_scale:
  "(2::rat) powi e = 2 powi (e - 52) * 2 ^ 52"
  "(2::rat) powi (e + 1) = 2 powi (e - 52) * 2 ^ 53"
proof -
  have "(2::rat) powi ((e - 52) + 52) = 2 powi (e - 52) * 2 powi 52"
    by (rule power_int_add) simp
  then show "(2::rat) powi e = 2 powi (e - 52) * 2 ^ 52"
    by simp
  have "(2::rat) powi ((e - 52) + 53) = 2 powi (e - 52) * 2 powi 53"
    by (rule power_int_add) simp
  moreover have "(e - 52) + 53 = e + 1"
    by simp
  ultimately show "(2::rat) powi (e + 1) = 2 powi (e - 52) * 2 ^ 53"
    by simp
qed

text \<open>The scaled value of a positive number lies in the binade of 53-bit integers.\<close>

lemma scaled_bounds:
  assumes "0 < (x::rat)"
  shows "2 ^ 52 \<le> x / 2 powi (ilog2 x - 52)" and "x / 2 powi (ilog2 x - 52) < 2 ^ 53"
proof -
  define q :: rat where "q = 2 powi (ilog2 x - 52)"
  have q: "0 < q"
    by (simp add: q_def)
  have "2 ^ 52 * q \<le> x"
    using ilog2_bounds(1) [OF assms] pow2_scale(1) [of "ilog2 x"]
    by (simp add: q_def mult.commute)
  then have "2 ^ 52 \<le> x / q"
    using q by (simp only: pos_le_divide_eq)
  then show "2 ^ 52 \<le> x / 2 powi (ilog2 x - 52)"
    by (simp only: q_def)
  have "x < 2 ^ 53 * q"
    using ilog2_bounds(2) [OF assms] pow2_scale(2) [of "ilog2 x"]
    by (simp add: q_def mult.commute)
  then have "x / q < 2 ^ 53"
    using q by (simp only: pos_divide_less_eq)
  then show "x / 2 powi (ilog2 x - 52) < 2 ^ 53"
    by (simp only: q_def)
qed

lemma mantissa_bounds:
  assumes "0 < (x::rat)"
  shows "2 ^ 52 \<le> round_half_even (x / 2 powi (ilog2 x - 52))"
    and "round_half_even (x / 2 powi (ilog2 x - 52)) \<le> 2 ^ 53"
proof -
  have "round_half_even (of_int (2 ^ 52)) \<le> round_half_even (x / 2 powi (ilog2 x - 52))"
    using scaled_bounds(1) [OF assms] by (intro round_half_even_mono) simp
  then show "2 ^ 52 \<le> round_half_even (x / 2 powi (ilog2 x - 52))"
    by (simp only: round_half_even_of_int)
  have "round_half_even (x / 2 powi (ilog2 x - 52)) \<le> round_half_even (of_int (2 ^ 53))"
    using scaled_bounds(2) [OF assms] by (intro round_half_even_mono) simp
  then show "round_half_even (x / 2 powi (ilog2 x - 52)) \<le> 2 ^ 53"
    by (simp only: round_half_even_of_int)
qed

lemma double_round_pos:
  "0 < x \<Longrightarrow> double_round x =
     of_int (round_half_even (x / 2 powi (ilog2 x - 52))) * 2 powi (ilog2 x - 52)"
  by (simp add: double_round_def Let_def)

lemma double_round_pos_bounds:
  assumes "0 < x"
  shows "2 powi (ilog2 x) \<le> double_round x" and "double_round x \<le> 2 powi (ilog2 x + 1)"
proof -
  define q :: rat where "q = 2 powi (ilog2 x - 52)"
  define m where "m = round_half_even (x / q)"
  have q: "0 < q"
    by (simp add: q_def)
  have dr: "double_round x = of_int m * q"
    using assms by (simp add: double_round_pos q_def m_def)
  have m: "2 ^ 52 \<le> m" "m \<le> 2 ^ 53"
    using mantissa_bounds [OF assms] by (simp_all add: m_def q_def)
  have lo: "2 powi (ilog2 x) = of_int (2 ^ 52) * q"
    using pow2_scale(1) [of "ilog2 x"] by (simp add: q_def mult.commute)
  have hi: "2 powi (ilog2 x + 1) = of_int (2 ^ 53) * q"
    using pow2_scale(2) [of "ilog2 x"] by (simp add: q_def mult.commute)
  have "(of_int (2 ^ 52) :: rat) \<le> of_int m"
    using m(1) by (simp only: of_int_le_iff)
  with q show "2 powi (ilog2 x) \<le> double_round x"
    unfolding lo dr by (intro mult_right_mono) simp_all
  have "(of_int m :: rat) \<le> of_int (2 ^ 53)"
    using m(2) by (simp only: of_int_le_iff)
  with q show "double_round x \<le> 2 powi (ilog2 x + 1)"
    unfolding hi dr by (intro mult_right_mono) simp_all
qed

lemma double_round_pos_mono:
  assumes "0 < x" and "x \<le> y"
  shows "double_round x \<le> double_round y"
proof -
  have y: "0 < y"
    using assms by linarith
  show ?thesis
  proof (cases "ilog2 x = ilog2 y")
    case True
    define q :: rat where "q = 2 powi (ilog2 y - 52)"
    have q: "0 < q"
      by (simp add: q_def)
    have "x / q \<le> y / q"
      using assms(2) q by (simp add: divide_right_mono)
    then have "round_half_even (x / q) \<le> round_half_even (y / q)"
      by (rule round_half_even_mono)
    then have "(of_int (round_half_even (x / q)) :: rat) \<le> of_int (round_half_even (y / q))"
      by (simp only: of_int_le_iff)
    with q have "of_int (round_half_even (x / q)) * q \<le> of_int (round_half_even (y / q)) * q"
      by (intro mult_right_mono) simp_all
    then show ?thesis
      using assms(1) y True by (simp add: double_round_pos q_def)
  next
    case False
    with ilog2_mono [OF assms] have "ilog2 x + 1 \<le> ilog2 y"
      by simp
    then have "(2::rat) powi (ilog2 x + 1) \<le> 2 powi (ilog2 y)"
      by (intro power_int_increasing) simp_all
    with double_round_pos_bounds(2) [OF assms(1)] double_round_pos_bounds(1) [OF y]
    show ?thesis
      by linarith
  qed
qed

lemma double_round_minus: "double_round (- x) = - double_round x"
  by (simp add: double_round_def Let_def round_half_even_minus)

lemma double_round_0: "double_round 0 = 0"
  by (simp add: double_round_def)

lemma double_round_pos_pos: "0 < x \<Longrightarrow> 0 < double_round x"
  using double_round_pos_bounds(1) [of x] zero_less_power_int [of "2::rat" "ilog2 x"]
  by linarith

lemma double_round_mono:
  assumes "x \<le> y"
  shows "double_round x \<le> double_round y"
proof -
  consider "0 < x" | "y < 0" | "x \<le> 0" "0 \<le> y"
    by linarith
  then show ?thesis
  proof cases
    case 1
    then show ?thesis
      using assms by (rule double_round_pos_mono)
  next
    case 2
    then have "0 < - y" and "- y \<le> - x"
      using assms by simp_all
    then have "double_round (- y) \<le> double_round (- x)"
      by (rule double_round_pos_mono)
    then show ?thesis
      by (simp add: double_round_minus)
  next
    case 3
    have "double_round x \<le> 0"
    proof (cases "x = 0")
      case True
      then show ?thesis by (simp add: double_round_0)
    next
      case False
      with 3 have "0 < - x" by simp
      then have "0 < double_round (- x)"
        by (rule double_round_pos_pos)
      then show ?thesis
        by (simp add: double_round_minus)
    qed
    moreover have "0 \<le> double_round y"
    proof (cases "y = 0")
      case True
      then show ?thesis by (simp add: double_round_0)
    next
      case False
      with 3 have "0 < y" by simp
      then have "0 < double_round y"
        by (rule double_round_pos_pos)
      then show ?thesis
        by simp
    qed
    ultimately show ?thesis
      by linarith
  qed
qed

lemma double_round_pos_idem:
  assumes "0 < x"
  shows "double_round (double_round x) = double_round x"
proof -
  define e where "e = ilog2 x"
  define q :: rat where "q = 2 powi (e - 52)"
  define m where "m = round_half_even (x / q)"
  have q: "0 < q"
    by (simp add: q_def)
  have dr: "double_round x = of_int m * q"
    using assms by (simp add: double_round_pos q_def m_def e_def)
  have m: "2 ^ 52 \<le> m" "m \<le> 2 ^ 53"
    using mantissa_bounds [OF assms] by (simp_all add: m_def q_def e_def)
  have z: "0 < double_round x"
    using assms by (rule double_round_pos_pos)
  show ?thesis
  proof (cases "m = 2 ^ 53")
    case True
    have v: "double_round x = 2 powi (e + 1)"
      using pow2_scale(2) [of e] by (simp add: dr True q_def mult.commute)
    have "(2::rat) powi (e + 1) < 2 powi (e + 1 + 1)"
      by (intro power_int_strict_increasing) simp_all
    then have il: "ilog2 (double_round x) = e + 1"
      unfolding v by (intro ilog2_unique) simp_all
    have "double_round x / 2 powi (e + 1 - 52) = of_int (2 ^ 52)"
      using pow2_scale(1) [of "e + 1"] by (simp add: v)
    then have "round_half_even (double_round x / 2 powi (e + 1 - 52)) = 2 ^ 52"
      by (simp only: round_half_even_of_int)
    then have "double_round (double_round x) = of_int (2 ^ 52) * 2 powi (e + 1 - 52)"
      using z by (simp add: double_round_pos il)
    also have "\<dots> = 2 powi (e + 1)"
      using pow2_scale(1) [of "e + 1"] by (simp add: mult.commute)
    finally show ?thesis
      by (simp add: v)
  next
    case False
    with m have m': "m + 1 \<le> 2 ^ 53"
      by simp
    have lo: "2 powi e \<le> double_round x"
      using double_round_pos_bounds(1) [OF assms] by (simp add: e_def)
    have "2 powi (e + 1) = of_int (2 ^ 53) * q"
      using pow2_scale(2) [of e] by (simp add: q_def mult.commute)
    moreover have "(of_int m :: rat) < of_int (2 ^ 53)"
      using m' by simp
    then have "of_int m * q < of_int (2 ^ 53) * q"
      using q by (intro mult_strict_right_mono) simp_all
    ultimately have hi: "double_round x < 2 powi (e + 1)"
      by (simp add: dr)
    from lo hi have il: "ilog2 (double_round x) = e"
      by (rule ilog2_unique)
    have "double_round x / q = of_int m"
      using q by (simp add: dr)
    then have r: "round_half_even (double_round x / q) = m"
      by (simp only: round_half_even_of_int)
    have "double_round (double_round x) =
        of_int (round_half_even (double_round x / 2 powi (ilog2 (double_round x) - 52))) *
        2 powi (ilog2 (double_round x) - 52)"
      using z by (rule double_round_pos)
    also have "\<dots> = of_int (round_half_even (double_round x / q)) * q"
      by (simp only: il q_def)
    also have "\<dots> = of_int m * q"
      by (simp only: r)
    finally show ?thesis
      using dr by simp
  qed
qed

lemma double_round_idem: "double_round (double_round x) = double_round x"
proof -
  consider "0 < x" | "x = 0" | "x < 0"
    by linarith
  then show ?thesis
  proof cases
    case 1
    then show ?thesis
      by (rule double_round_pos_idem)
  next
    case 2
    then show ?thesis
      by (simp add: double_round_0)
  next
    case 3
    then have "0 < - x"
      by simp
    then have "double_round (double_round (- x)) = double_round (- x)"
      by (rule double_round_pos_idem)
    then show ?thesis
      by (simp add: double_round_minus)
  qed
qed

subsection \<open>Float sums and differences\<close>

lemma is_double_double_round: "is_double (double_round x)"
  by (simp add: is_double_def double_round_idem)

lemma is_double_0: "is_double 0"
  by (simp add: is_double_def double_round_0)

lemma is_double_fadd: "is_double (fadd x y)"
  by (simp add: fadd_def is_double_double_round)





text \<open>
  The test \<open>clip_duration > max_clip\<close> is made on the float difference. A difference that
  does not exceed the maximum before rounding does not exceed it after.
\<close>

lemma double_round_max_clip: "double_round max_clip = max_clip"
  by code_simp

lemma fsub_le_max_clip: "x - y \<le> max_clip \<Longrightarrow> fsub x y \<le> max_clip"
  using double_round_mono [of "x - y" max_clip] by (simp add: fsub_def double_round_max_clip)

subsection \<open>\<open>round(x, 3)\<close>\<close>

lemma py_round_idem: "py_round (py_round x 3) 3 = py_round x 3"
  by (simp add: py_round_def round_half_even_of_int)


lemma ms_rounded_py_round: "ms_rounded (py_round x 3)"
  by (simp add: ms_rounded_def py_round_idem)

text \<open>The rounded timestamps are the whole numbers of milliseconds.\<close>

lemma ms_rounded_iff: "ms_rounded x \<longleftrightarrow> (\<exists>n::int. x = of_int n / 1000)"
proof
  assume "ms_rounded x"
  then have "x = of_int (round_half_even (x * 10 ^ 3)) / 1000"
    by (simp add: ms_rounded_def py_round_def)
  then show "\<exists>n::int. x = of_int n / 1000" ..
next
  assume "\<exists>n::int. x = of_int n / 1000"
  then obtain n :: int where "x = of_int n / 1000" ..
  then show "ms_rounded x"
    by (simp add: ms_rounded_def py_round_def round_half_even_of_int)
qed

section \<open>Invariants of the builder\<close>

subsection \<open>Every emission follows one pattern\<close>

lemma interstitial_card_cases:
  "interstitial_card lbl (segs, trs, p) = (segs, trs, p) \<or>
   (\<exists>caption. interstitial_card lbl (segs, trs, p) =
      place (Card caption None (py_round p 3) (py_round (fadd p INTERSTITIAL_DURATION) 3))
        INTERSTITIAL_DURATION (segs, trs, p))"
  by (simp add: interstitial_card_def place_def split: option.split)

lemma clip_segment_place:
  "clip_segment lbl start_t end_t raw (segs, trs, p) =
    (case clip_points start_t end_t raw of (c_in, c_out, d) \<Rightarrow>
      place (Clip lbl (py_round c_in 3) (py_round c_out 3) (py_round p 3) (py_round (fadd p d) 3)
               \<lparr>scaleFrom = 1, scaleTo = 102 / 100\<rparr>) d (segs, trs, p))"
  by (simp add: clip_segment_def place_def split: prod.split)

lemma timeline_inv_place:
  assumes "timeline_inv (segs, trs, p)"
    and "seg_start s = py_round p 3" and "seg_end s = py_round (fadd p d) 3"
  shows "timeline_inv (place s d (segs, trs, p))"
proof -
  from assms(1) have ne: "segs \<noteq> []" and z: "seg_start (segs ! 0) = 0"
    and c: "\<And>i. Suc i < length segs \<Longrightarrow> seg_start (segs ! Suc i) = seg_end (segs ! i)"
    and l: "seg_end (last segs) = py_round p 3"
    by (simp_all add: timeline_inv_def)
  have "seg_start ((segs @ [s]) ! Suc i) = seg_end ((segs @ [s]) ! i)"
    if "Suc i < length (segs @ [s])" for i
  proof (cases "Suc i < length segs")
    case True
    then show ?thesis by (simp add: nth_append c)
  next
    case False
    with that have i: "Suc i = length segs" by simp
    then have "i = length segs - 1" and "i < length segs"
      by simp_all
    then have "(segs @ [s]) ! i = last segs"
      using ne by (simp add: nth_append last_conv_nth)
    moreover from i have "(segs @ [s]) ! Suc i = s"
      by (simp add: nth_append)
    ultimately show ?thesis
      by (simp add: l assms(2))
  qed
  moreover have "seg_start ((segs @ [s]) ! 0) = 0"
    using ne z by (simp add: nth_append)
  ultimately show ?thesis
    by (simp add: timeline_inv_def place_def assms(3))
qed

lemma fades_inv_place:
  assumes "fades_inv (segs, trs, p)" and "seg_end s = py_round (fadd p d) 3"
  shows "fades_inv (place s d (segs, trs, p))"
  using assms by (auto simp: fades_inv_def place_def nth_append fade_def)

lemma rounded_inv_place:
  assumes "rounded_inv (segs, trs, p)"
    and "ms_rounded (seg_start s)" and "ms_rounded (seg_end s)"
    and "is_clip s \<Longrightarrow> ms_rounded (clip_in s) \<and> ms_rounded (clip_out s)"
  shows "rounded_inv (place s d (segs, trs, p))"
  using assms by (auto simp: rounded_inv_def place_def fade_def ms_rounded_py_round)

subsection \<open>Every step keeps the invariants\<close>

lemma builder_inv_place:
  assumes "builder_inv (segs, trs, p)"
    and "seg_start s = py_round p 3" and "seg_end s = py_round (fadd p d) 3"
    and "is_clip s \<Longrightarrow> ms_rounded (clip_in s) \<and> ms_rounded (clip_out s)"
  shows "builder_inv (place s d (segs, trs, p))"
  using assms
  by (simp add: builder_inv_def timeline_inv_place fades_inv_place rounded_inv_place
      ms_rounded_py_round)

lemma py_round_0: "py_round 0 3 = 0"
  by (simp add: py_round_def round_half_even_def)

lemma ms_rounded_0: "ms_rounded 0"
  by (simp add: ms_rounded_def py_round_0)

lemma builder_inv_intro_card: "builder_inv (intro_card ([], [], 0))"
  by (simp add: builder_inv_def timeline_inv_def fades_inv_def rounded_inv_def intro_card_def
      fade_def ms_rounded_py_round py_round_0 ms_rounded_0)

lemma builder_inv_interstitial_card:
  assumes "builder_inv st"
  shows "builder_inv (interstitial_card lbl st)"
proof -
  obtain segs trs p where st: "st = (segs, trs, p)"
    by (cases st) auto
  from interstitial_card_cases [of lbl segs trs p] show ?thesis
  proof
    assume "interstitial_card lbl (segs, trs, p) = (segs, trs, p)"
    with assms st show ?thesis by simp
  next
    assume "\<exists>caption. interstitial_card lbl (segs, trs, p) =
      place (Card caption None (py_round p 3) (py_round (fadd p INTERSTITIAL_DURATION) 3))
        INTERSTITIAL_DURATION (segs, trs, p)"
    then obtain caption where "interstitial_card lbl (segs, trs, p) =
      place (Card caption None (py_round p 3) (py_round (fadd p INTERSTITIAL_DURATION) 3))
        INTERSTITIAL_DURATION (segs, trs, p)" ..
    moreover have "builder_inv (place (Card caption None (py_round p 3)
        (py_round (fadd p INTERSTITIAL_DURATION) 3)) INTERSTITIAL_DURATION (segs, trs, p))"
      using assms st by (intro builder_inv_place) simp_all
    ultimately show ?thesis
      using st by simp
  qed
qed

lemma builder_inv_clip_segment:
  assumes "builder_inv st"
  shows "builder_inv (clip_segment lbl start_t end_t raw st)"
proof -
  obtain segs trs p where st: "st = (segs, trs, p)"
    by (cases st) auto
  obtain c_in c_out d where cp: "clip_points start_t end_t raw = (c_in, c_out, d)"
    by (cases "clip_points start_t end_t raw") auto
  have "builder_inv (place (Clip lbl (py_round c_in 3) (py_round c_out 3) (py_round p 3)
      (py_round (fadd p d) 3) \<lparr>scaleFrom = 1, scaleTo = 102 / 100\<rparr>) d (segs, trs, p))"
    using assms st by (intro builder_inv_place) (simp_all add: ms_rounded_py_round)
  then show ?thesis
    by (simp add: st clip_segment_place cp)
qed

lemma builder_inv_scene_step:
  "builder_inv st \<Longrightarrow> builder_inv (scene_step scene_times raw st i)"
  by (simp add: scene_step_def builder_inv_interstitial_card builder_inv_clip_segment
      split: prod.split)

lemma foldl_invariant:
  assumes "P st" and "\<And>s x. P s \<Longrightarrow> P (f s x)"
  shows "P (foldl f st xs)"
  using assms(1) by (induction xs arbitrary: st) (simp_all add: assms(2))

lemma builder_inv_scenes_loop:
  "builder_inv st \<Longrightarrow> builder_inv (scenes_loop scene_times raw st)"
  unfolding scenes_loop_def by (rule foldl_invariant) (simp_all add: builder_inv_scene_step)

subsection \<open>The result in terms of the state before the outro card\<close>

lemma build_edl_unfold:
  obtains segs trs p where
    "scenes_loop (scene_times_of (beat_map beats) SCENE_BEATS) raw (intro_card ([], [], 0))
       = (segs, trs, p)"
    and "builder_inv (segs, trs, p)"
    and "build_edl beats raw =
      \<lparr>fps = FPS, size_edl = SIZE, durationSec = py_round (fadd p OUTRO_DURATION) 3,
       inputs_edl = \<lparr>video = ''recordings/raw.mp4''\<rparr>,
       segments = segs @ [Card ''token-editor.com'' (Some '''')
                 (py_round p 3) (py_round (fadd p OUTRO_DURATION) 3)],
       transitions = trs\<rparr>"
proof -
  obtain segs trs p where
    l: "scenes_loop (scene_times_of (beat_map beats) SCENE_BEATS) raw (intro_card ([], [], 0))
       = (segs, trs, p)"
    by (cases "scenes_loop (scene_times_of (beat_map beats) SCENE_BEATS) raw
          (intro_card ([], [], 0))") auto
  have "builder_inv (scenes_loop (scene_times_of (beat_map beats) SCENE_BEATS) raw
          (intro_card ([], [], 0)))"
    by (intro builder_inv_scenes_loop builder_inv_intro_card)
  with l have "builder_inv (segs, trs, p)"
    by simp
  moreover have "build_edl beats raw =
      \<lparr>fps = FPS, size_edl = SIZE, durationSec = py_round (fadd p OUTRO_DURATION) 3,
       inputs_edl = \<lparr>video = ''recordings/raw.mp4''\<rparr>,
       segments = segs @ [Card ''token-editor.com'' (Some '''')
                 (py_round p 3) (py_round (fadd p OUTRO_DURATION) 3)],
       transitions = trs\<rparr>"
    by (simp add: build_edl_def Let_def l outro_card_def)
  ultimately show ?thesis
    using l that by blast
qed


section \<open>The clips of the result\<close>

lemma clips_of_interstitial_card:
  "clips_of (fst (interstitial_card lbl st)) = clips_of (fst st)"
  by (cases st) (simp add: interstitial_card_def clips_of_def split: option.split)

lemma fst_scene_step:
  "fst (scene_step scene_times raw st i) =
    fst (interstitial_card (fst (scene_times ! i)) st) @
    [clip_at scene_times raw (snd (snd (interstitial_card (fst (scene_times ! i)) st))) i]"
proof -
  obtain lbl start_t where a: "scene_times ! i = (lbl, start_t)"
    by (cases "scene_times ! i") auto
  obtain lbl' end_t where b: "scene_times ! (i + 1) = (lbl', end_t)"
    by (cases "scene_times ! (i + 1)") auto
  obtain segs trs p where c: "interstitial_card lbl st = (segs, trs, p)"
    by (cases "interstitial_card lbl st") auto
  obtain c_in c_out d where e: "clip_points start_t end_t raw = (c_in, c_out, d)"
    by (cases "clip_points start_t end_t raw") auto
  from a b c e show ?thesis
    by (simp add: scene_step_def clip_segment_def clip_at_def)
qed

lemma is_clip_clip_at: "is_clip (clip_at scene_times raw p i)"
  by (simp add: clip_at_def split: prod.split)

text \<open>The position is a float after every step, and stays one across the optional card.\<close>

lemma is_double_intro_card: "is_double (snd (snd (intro_card st)))"
  by (cases st) (simp add: intro_card_def is_double_fadd)

lemma is_double_interstitial_card:
  "is_double (snd (snd st)) \<Longrightarrow> is_double (snd (snd (interstitial_card lbl st)))"
  by (cases st) (simp add: interstitial_card_def is_double_fadd split: option.split)

lemma is_double_scene_step: "is_double (snd (snd (scene_step scene_times raw st i)))"
  by (cases "interstitial_card (fst (scene_times ! i)) st")
    (simp add: scene_step_def clip_segment_def is_double_fadd split: prod.split)

lemma clips_of_scene_step:
  assumes "is_double (snd (snd st))"
  shows "\<exists>p. is_double p \<and> clips_of (fst (scene_step scene_times raw st i)) =
         clips_of (fst st) @ [clip_at scene_times raw p i]"
proof -
  have "clips_of (fst (scene_step scene_times raw st i)) =
      clips_of (fst (interstitial_card (fst (scene_times ! i)) st)) @
      [clip_at scene_times raw (snd (snd (interstitial_card (fst (scene_times ! i)) st))) i]"
    by (simp add: fst_scene_step clips_of_def is_clip_clip_at)
  then have "clips_of (fst (scene_step scene_times raw st i)) = clips_of (fst st) @
      [clip_at scene_times raw (snd (snd (interstitial_card (fst (scene_times ! i)) st))) i]"
    by (simp only: clips_of_interstitial_card)
  with is_double_interstitial_card [OF assms] show ?thesis
    by blast
qed

lemma clips_of_foldl_scene_step:
  assumes "is_double (snd (snd st))"
  shows "\<exists>ps. length ps = length idxs \<and> (\<forall>p \<in> set ps. is_double p) \<and>
     clips_of (fst (foldl (scene_step scene_times raw) st idxs)) =
     clips_of (fst st) @ map (\<lambda>(p, i). clip_at scene_times raw p i) (zip ps idxs)"
  using assms
proof (induction idxs arbitrary: st)
  case Nil
  then show ?case by simp
next
  case (Cons i idxs)
  obtain p where p: "is_double p"
    "clips_of (fst (scene_step scene_times raw st i)) =
         clips_of (fst st) @ [clip_at scene_times raw p i]"
    using clips_of_scene_step [OF Cons.prems] by blast
  obtain ps where ps: "length ps = length idxs" "\<forall>p \<in> set ps. is_double p"
    "clips_of (fst (foldl (scene_step scene_times raw) (scene_step scene_times raw st i) idxs)) =
     clips_of (fst (scene_step scene_times raw st i)) @
     map (\<lambda>(p, i). clip_at scene_times raw p i) (zip ps idxs)"
    using Cons.IH [OF is_double_scene_step] by blast
  have "length (p # ps) = length (i # idxs) \<and> (\<forall>p \<in> set (p # ps). is_double p) \<and>
     clips_of (fst (foldl (scene_step scene_times raw) st (i # idxs))) =
     clips_of (fst st) @ map (\<lambda>(p, i). clip_at scene_times raw p i) (zip (p # ps) (i # idxs))"
    using p ps by simp
  then show ?case
    by blast
qed

lemma clips_of_build_edl:
  "\<exists>ps. length ps = length (scene_times_of (beat_map beats) SCENE_BEATS) - 1 \<and>
     (\<forall>p \<in> set ps. is_double p) \<and>
     clips_of (segments (build_edl beats raw)) =
     map (\<lambda>(p, i). clip_at (scene_times_of (beat_map beats) SCENE_BEATS) raw p i)
       (zip ps [0 ..< length (scene_times_of (beat_map beats) SCENE_BEATS) - 1])"
proof -
  define sts where "sts = scene_times_of (beat_map beats) SCENE_BEATS"
  obtain ps where ps: "length ps = length [0 ..< length sts - 1]" "\<forall>p \<in> set ps. is_double p"
    "clips_of (fst (foldl (scene_step sts raw) (intro_card ([], [], 0)) [0 ..< length sts - 1])) =
     clips_of (fst (intro_card ([], [], 0))) @
     map (\<lambda>(p, i). clip_at sts raw p i) (zip ps [0 ..< length sts - 1])"
    using clips_of_foldl_scene_step [OF is_double_intro_card] by blast
  have "clips_of (segments (build_edl beats raw)) =
      clips_of (fst (foldl (scene_step sts raw) (intro_card ([], [], 0)) [0 ..< length sts - 1]))"
    by (simp add: build_edl_def Let_def scenes_loop_def outro_card_def sts_def clips_of_def
        split: prod.split)
  also have "\<dots> = map (\<lambda>(p, i). clip_at sts raw p i) (zip ps [0 ..< length sts - 1])"
    unfolding ps(3) by (simp add: intro_card_def clips_of_def)
  finally show ?thesis
    using ps(1,2) unfolding sts_def by auto
qed


lemma clip_label_clip_at: "clip_label (clip_at scene_times raw p i) = fst (scene_times ! i)"
  by (simp add: clip_at_def split: prod.split)

lemma map_fst_scene_times_of:
  "map fst (scene_times_of m lbls) = filter (\<lambda>l. l \<in> dom m) lbls"
  by (induction lbls) (auto split: option.split)

lemma dom_foldl_beat:
  "dom (foldl (\<lambda>m b. m(label b \<mapsto> t b)) m0 beats) = dom m0 \<union> label ` set beats"
  by (induction beats arbitrary: m0) auto

lemma dom_beat_map: "dom (beat_map beats) = label ` set beats"
  by (simp add: beat_map_def dom_foldl_beat)


lemma distinct_SCENE_BEATS: "distinct SCENE_BEATS"
  by (simp add: SCENE_BEATS_def)

lemma length_scene_times_of:
  "length (scene_times_of (beat_map beats) SCENE_BEATS) =
   card (label ` set beats \<inter> set SCENE_BEATS)"
proof -
  have "length (scene_times_of (beat_map beats) SCENE_BEATS) =
      length (map fst (scene_times_of (beat_map beats) SCENE_BEATS))"
    by simp
  also have "\<dots> = length (filter (\<lambda>l. l \<in> label ` set beats) SCENE_BEATS)"
    by (simp only: map_fst_scene_times_of dom_beat_map)
  also have "\<dots> = card ({l. l \<in> label ` set beats} \<inter> set SCENE_BEATS)"
    using distinct_SCENE_BEATS by (rule distinct_length_filter)
  finally show ?thesis
    by simp
qed

lemma py_round_INTRO: "py_round (fadd 0 INTRO_DURATION) 3 = 12 / 10"
  by code_simp

lemma py_round_INTRO_OUTRO:
  "py_round (fadd (fadd 0 INTRO_DURATION) OUTRO_DURATION) 3 = 27 / 10"
  by code_simp

section \<open>The claims\<close>

text \<open>
  A small run, used where a statement is applied to a concrete input: the beats \<open>open\<close> at
  0 and \<open>end\<close> at 3, with 9 seconds of footage.
\<close>

lemma build_edl_two_beats:
  "build_edl [\<lparr>label = ''open'', t = 0\<rparr>, \<lparr>label = ''end'', t = 3\<rparr>] 9 =
    \<lparr>fps = 30, size_edl = \<lparr>w = 1920, h = 1080\<rparr>, durationSec = 57 / 10,
     inputs_edl = \<lparr>video = ''recordings/raw.mp4''\<rparr>,
     segments =
       [Card ''Token'' (Some ''a minimal text editor'') 0 (12 / 10),
        Clip ''open'' 0 3 (12 / 10) (42 / 10) \<lparr>scaleFrom = 1, scaleTo = 102 / 100\<rparr>,
        Card ''token-editor.com'' (Some '''') (42 / 10) (57 / 10)],
     transitions =
       [\<lparr>tr_type = ''fade'', tr_at = 12 / 10, tr_dur = 2 / 10\<rparr>,
        \<lparr>tr_type = ''fade'', tr_at = 42 / 10, tr_dur = 2 / 10\<rparr>]\<rparr>"
  by code_simp

text \<open>
  C1 (contiguity). For every beats list and footage duration, the first segment of the
  returned EDL starts at 0 and every later segment starts where the segment before it
  ends.
\<close>

theorem segments_contiguous:
  "seg_start (segments (build_edl beats raw_duration) ! 0) = 0 \<and>
   (\<forall>i. i + 1 < length (segments (build_edl beats raw_duration)) \<longrightarrow>
      seg_start (segments (build_edl beats raw_duration) ! (i + 1)) =
      seg_end (segments (build_edl beats raw_duration) ! i))"
proof -
  obtain segs trs p where inv: "builder_inv (segs, trs, p)"
    and e: "build_edl beats raw_duration =
      \<lparr>fps = FPS, size_edl = SIZE, durationSec = py_round (fadd p OUTRO_DURATION) 3,
       inputs_edl = \<lparr>video = ''recordings/raw.mp4''\<rparr>,
       segments = segs @ [Card ''token-editor.com'' (Some '''')
                 (py_round p 3) (py_round (fadd p OUTRO_DURATION) 3)],
       transitions = trs\<rparr>"
    by (rule build_edl_unfold)
  from inv have "timeline_inv (segs, trs, p)"
    by (simp add: builder_inv_def)
  then have "timeline_inv (place (Card ''token-editor.com'' (Some '''')
                 (py_round p 3) (py_round (fadd p OUTRO_DURATION) 3)) OUTRO_DURATION (segs, trs, p))"
    by (rule timeline_inv_place) simp_all
  then show ?thesis
    by (simp add: e timeline_inv_def place_def)
qed

theorem segments_contiguous_witness:
  "(1::nat) + 1 < length (segments (build_edl
      [\<lparr>label = ''open'', t = 0\<rparr>, \<lparr>label = ''end'', t = 3\<rparr>] 9)) \<and>
   seg_start (segments (build_edl
      [\<lparr>label = ''open'', t = 0\<rparr>, \<lparr>label = ''end'', t = 3\<rparr>] 9) ! (1 + 1)) =
   seg_end (segments (build_edl
      [\<lparr>label = ''open'', t = 0\<rparr>, \<lparr>label = ''end'', t = 3\<rparr>] 9) ! 1)"
proof -
  have len: "(1::nat) + 1 < length (segments (build_edl
      [\<lparr>label = ''open'', t = 0\<rparr>, \<lparr>label = ''end'', t = 3\<rparr>] 9))"
    by (simp add: build_edl_two_beats)
  from segments_contiguous [of "[\<lparr>label = ''open'', t = 0\<rparr>, \<lparr>label = ''end'', t = 3\<rparr>]" 9]
  have "\<forall>i. i + 1 < length (segments (build_edl
      [\<lparr>label = ''open'', t = 0\<rparr>, \<lparr>label = ''end'', t = 3\<rparr>] 9)) \<longrightarrow>
      seg_start (segments (build_edl
      [\<lparr>label = ''open'', t = 0\<rparr>, \<lparr>label = ''end'', t = 3\<rparr>] 9) ! (i + 1)) =
      seg_end (segments (build_edl
      [\<lparr>label = ''open'', t = 0\<rparr>, \<lparr>label = ''end'', t = 3\<rparr>] 9) ! i)" ..
  with len show ?thesis
    by blast
qed

text \<open>
  C2 (total duration). The \<open>durationSec\<close> of the returned EDL is the \<open>end\<close> of its last
  segment.
\<close>

theorem duration_is_last_end:
  "durationSec (build_edl beats raw_duration) =
   seg_end (last (segments (build_edl beats raw_duration)))"
proof -
  obtain segs trs p where
    e: "build_edl beats raw_duration =
      \<lparr>fps = FPS, size_edl = SIZE, durationSec = py_round (fadd p OUTRO_DURATION) 3,
       inputs_edl = \<lparr>video = ''recordings/raw.mp4''\<rparr>,
       segments = segs @ [Card ''token-editor.com'' (Some '''')
                 (py_round p 3) (py_round (fadd p OUTRO_DURATION) 3)],
       transitions = trs\<rparr>"
    by (rule build_edl_unfold)
  then show ?thesis
    by simp
qed

text \<open>
  C3 (transition anchoring). A transition is appended right after a segment, so the
  transition at index \<open>i\<close> follows the segment at index \<open>i\<close> in construction order: its
  \<open>at\<close> is the \<open>end\<close> of that segment. The last segment is the outro card, and there is
  one transition less than there are segments: none follows the outro.
\<close>

theorem transitions_anchored:
  "length (transitions (build_edl beats raw_duration)) + 1 =
     length (segments (build_edl beats raw_duration)) \<and>
   last (segments (build_edl beats raw_duration)) =
     Card ''token-editor.com'' (Some '''')
       (seg_start (last (segments (build_edl beats raw_duration))))
       (durationSec (build_edl beats raw_duration)) \<and>
   (\<forall>i < length (transitions (build_edl beats raw_duration)).
      tr_at (transitions (build_edl beats raw_duration) ! i) =
      seg_end (segments (build_edl beats raw_duration) ! i))"
proof -
  obtain segs trs p where inv: "builder_inv (segs, trs, p)"
    and e: "build_edl beats raw_duration =
      \<lparr>fps = FPS, size_edl = SIZE, durationSec = py_round (fadd p OUTRO_DURATION) 3,
       inputs_edl = \<lparr>video = ''recordings/raw.mp4''\<rparr>,
       segments = segs @ [Card ''token-editor.com'' (Some '''')
                 (py_round p 3) (py_round (fadd p OUTRO_DURATION) 3)],
       transitions = trs\<rparr>"
    by (rule build_edl_unfold)
  from inv have "fades_inv (segs, trs, p)"
    by (simp add: builder_inv_def)
  then show ?thesis
    by (simp add: e fades_inv_def nth_append)
qed

theorem transitions_anchored_witness:
  "(1::nat) < length (transitions (build_edl
      [\<lparr>label = ''open'', t = 0\<rparr>, \<lparr>label = ''end'', t = 3\<rparr>] 9)) \<and>
   tr_at (transitions (build_edl
      [\<lparr>label = ''open'', t = 0\<rparr>, \<lparr>label = ''end'', t = 3\<rparr>] 9) ! 1) =
   seg_end (segments (build_edl
      [\<lparr>label = ''open'', t = 0\<rparr>, \<lparr>label = ''end'', t = 3\<rparr>] 9) ! 1)"
proof -
  have len: "(1::nat) < length (transitions (build_edl
      [\<lparr>label = ''open'', t = 0\<rparr>, \<lparr>label = ''end'', t = 3\<rparr>] 9))"
    by (simp add: build_edl_two_beats)
  from transitions_anchored [of "[\<lparr>label = ''open'', t = 0\<rparr>, \<lparr>label = ''end'', t = 3\<rparr>]" 9]
  have "\<forall>i < length (transitions (build_edl
      [\<lparr>label = ''open'', t = 0\<rparr>, \<lparr>label = ''end'', t = 3\<rparr>] 9)).
      tr_at (transitions (build_edl
      [\<lparr>label = ''open'', t = 0\<rparr>, \<lparr>label = ''end'', t = 3\<rparr>] 9) ! i) =
      seg_end (segments (build_edl
      [\<lparr>label = ''open'', t = 0\<rparr>, \<lparr>label = ''end'', t = 3\<rparr>] 9) ! i)"
    by blast
  with len show ?thesis
    by blast
qed




text \<open>
  Nor is the emitted length \<open>end - start\<close> of a clamped clip always the maximum: for the
  beats \<open>open\<close> at 0, \<open>multicursor_start\<close> at 0.0005 and \<open>split_view\<close> at 50.0005 with 100
  seconds of footage the second clip is clamped and lies on \<open>[1.9, 6.901)\<close>.
\<close>

lemma clamped_clip_emitted_length:
  "clips_of (segments (build_edl
      [\<lparr>label = ''open'', t = 0\<rparr>,
       \<lparr>label = ''multicursor_start'', t = double_round (5 / 10000)\<rparr>,
       \<lparr>label = ''split_view'', t = double_round (500005 / 10000)\<rparr>] 100)) =
     [Clip ''open'' 0 (1 / 1000) (12 / 10) (12 / 10) \<lparr>scaleFrom = 1, scaleTo = 102 / 100\<rparr>,
      Clip ''multicursor_start'' (1 / 1000) 5 (19 / 10) (6901 / 1000)
        \<lparr>scaleFrom = 1, scaleTo = 102 / 100\<rparr>]"
  by code_simp




text \<open>
  A strict inequality does not follow from a positive span either: for the beats \<open>open\<close>
  at 0, \<open>multicursor_start\<close> at 0.1015 and \<open>split_view\<close> at 0.10250000000000001 with 100
  seconds of footage, the second clip has a span above one millisecond and is stored with
  \<open>start = end = 2.002\<close>.
\<close>

lemma positive_span_zero_length:
  "clips_of (segments (build_edl
      [\<lparr>label = ''open'', t = 0\<rparr>,
       \<lparr>label = ''multicursor_start'', t = double_round (1015 / 10000)\<rparr>,
       \<lparr>label = ''split_view'',
        t = double_round (10250000000000001 / 100000000000000000)\<rparr>] 100)) =
     [Clip ''open'' 0 (102 / 1000) (12 / 10) (1301 / 1000)
        \<lparr>scaleFrom = 1, scaleTo = 102 / 100\<rparr>,
      Clip ''multicursor_start'' (102 / 1000) (103 / 1000) (2002 / 1000) (2002 / 1000)
        \<lparr>scaleFrom = 1, scaleTo = 102 / 100\<rparr>] \<and>
   double_round (1015 / 10000) + 1 / 1000 <
     double_round (10250000000000001 / 100000000000000000)"
  by code_simp

text \<open>
  C6 (configured order). The labels of the clips, in the order of the clips, are the labels
  of \<open>SCENE_BEATS\<close> that occur in the beats, in the order of \<open>SCENE_BEATS\<close>, without the
  last of them (the last boundary only ends a clip). The order of the beats plays no part:
  two beats lists with the same set of labels give the same sequence of clip labels.
\<close>

theorem clips_in_configured_order:
  "map clip_label (clips_of (segments (build_edl beats raw_duration))) =
     butlast (filter (\<lambda>l. l \<in> label ` set beats) SCENE_BEATS) \<and>
   (\<forall>beats' raw_duration'. label ` set beats' = label ` set beats \<longrightarrow>
      map clip_label (clips_of (segments (build_edl beats' raw_duration'))) =
      map clip_label (clips_of (segments (build_edl beats raw_duration))))"
proof -
  have *: "map clip_label (clips_of (segments (build_edl bs raw))) =
     butlast (filter (\<lambda>l. l \<in> label ` set bs) SCENE_BEATS)" for bs raw
  proof -
    define sts where "sts = scene_times_of (beat_map bs) SCENE_BEATS"
    obtain ps where ps: "length ps = length sts - 1"
      "clips_of (segments (build_edl bs raw)) =
       map (\<lambda>(p, i). clip_at sts raw p i) (zip ps [0 ..< length sts - 1])"
      using clips_of_build_edl unfolding sts_def by blast
    have "map clip_label (clips_of (segments (build_edl bs raw))) =
        map (\<lambda>i. fst (sts ! i)) (map snd (zip ps [0 ..< length sts - 1]))"
      by (simp add: ps(2) clip_label_clip_at split_def)
    also have "\<dots> = map (\<lambda>i. fst (sts ! i)) [0 ..< length sts - 1]"
      using ps(1) by simp
    also have "\<dots> = map fst (butlast sts)"
      by (rule nth_equalityI) (simp_all add: nth_butlast)
    also have "\<dots> = butlast (filter (\<lambda>l. l \<in> label ` set bs) SCENE_BEATS)"
      by (simp add: map_butlast sts_def map_fst_scene_times_of dom_beat_map)
    finally show ?thesis .
  qed
  show ?thesis
    by (simp add: *)
qed

theorem clips_in_configured_order_witness:
  "label ` set [\<lparr>label = ''end'', t = 3\<rparr>, \<lparr>label = ''open'', t = 0\<rparr>] =
   label ` set [\<lparr>label = ''open'', t = 0\<rparr>, \<lparr>label = ''end'', t = 3\<rparr>] \<and>
   map clip_label (clips_of (segments (build_edl
     [\<lparr>label = ''end'', t = 3\<rparr>, \<lparr>label = ''open'', t = 0\<rparr>] 9))) = [''open'']"
proof -
  have h: "label ` set [\<lparr>label = ''end'', t = 3\<rparr>, \<lparr>label = ''open'', t = 0\<rparr>] =
   label ` set [\<lparr>label = ''open'', t = 0\<rparr>, \<lparr>label = ''end'', t = 3\<rparr>]"
    by auto
  from clips_in_configured_order
    [of "[\<lparr>label = ''open'', t = 0\<rparr>, \<lparr>label = ''end'', t = 3\<rparr>]" 9]
  have "\<forall>beats' raw_duration'.
      label ` set beats' = label ` set [\<lparr>label = ''open'', t = 0\<rparr>, \<lparr>label = ''end'', t = 3\<rparr>] \<longrightarrow>
      map clip_label (clips_of (segments (build_edl beats' raw_duration'))) =
      map clip_label (clips_of (segments (build_edl
        [\<lparr>label = ''open'', t = 0\<rparr>, \<lparr>label = ''end'', t = 3\<rparr>] 9)))" ..
  with h have "map clip_label (clips_of (segments (build_edl
     [\<lparr>label = ''end'', t = 3\<rparr>, \<lparr>label = ''open'', t = 0\<rparr>] 9))) =
     map clip_label (clips_of (segments (build_edl
        [\<lparr>label = ''open'', t = 0\<rparr>, \<lparr>label = ''end'', t = 3\<rparr>] 9)))"
    by blast
  with h show ?thesis
    by (simp add: build_edl_two_beats clips_of_def)
qed

text \<open>
  C7 (fewer than two boundaries). When fewer than two labels of \<open>SCENE_BEATS\<close> occur in the
  beats (the empty list included), the loop body never runs and the result is the intro
  card followed by the outro card, with the one fade after the intro. No operation of
  \<open>build_edl\<close> can raise on such a list: the indices \<open>i\<close> and \<open>i + 1\<close> are only read inside
  the loop, and \<open>BEAT_LABELS.get\<close> and the membership test in \<open>beat_map\<close> do not raise.
\<close>

theorem intro_outro_only:
  assumes "card (label ` set beats \<inter> set SCENE_BEATS) < 2"
  shows "build_edl beats raw_duration =
    \<lparr>fps = 30, size_edl = \<lparr>w = 1920, h = 1080\<rparr>, durationSec = 27 / 10,
     inputs_edl = \<lparr>video = ''recordings/raw.mp4''\<rparr>,
     segments =
       [Card ''Token'' (Some ''a minimal text editor'') 0 (12 / 10),
        Card ''token-editor.com'' (Some '''') (12 / 10) (27 / 10)],
     transitions = [\<lparr>tr_type = ''fade'', tr_at = 12 / 10, tr_dur = 2 / 10\<rparr>]\<rparr>"
proof -
  from assms have "length (scene_times_of (beat_map beats) SCENE_BEATS) - 1 = 0"
    by (simp add: length_scene_times_of)
  then have "scenes_loop (scene_times_of (beat_map beats) SCENE_BEATS) raw_duration
      (intro_card ([], [], 0)) = intro_card ([], [], 0)"
    by (simp add: scenes_loop_def)
  then show ?thesis
    by (simp add: build_edl_def Let_def intro_card_def outro_card_def fade_def py_round_0
        py_round_INTRO py_round_INTRO_OUTRO FPS_def SIZE_def FADE_DURATION_def)
qed

theorem intro_outro_only_witness:
  "card (label ` set [\<lparr>label = ''open'', t = 1\<rparr>, \<lparr>label = ''navigate'', t = 2\<rparr>]
         \<inter> set SCENE_BEATS) < 2 \<and>
   build_edl [\<lparr>label = ''open'', t = 1\<rparr>, \<lparr>label = ''navigate'', t = 2\<rparr>] 9 =
    \<lparr>fps = 30, size_edl = \<lparr>w = 1920, h = 1080\<rparr>, durationSec = 27 / 10,
     inputs_edl = \<lparr>video = ''recordings/raw.mp4''\<rparr>,
     segments =
       [Card ''Token'' (Some ''a minimal text editor'') 0 (12 / 10),
        Card ''token-editor.com'' (Some '''') (12 / 10) (27 / 10)],
     transitions = [\<lparr>tr_type = ''fade'', tr_at = 12 / 10, tr_dur = 2 / 10\<rparr>]\<rparr>"
proof -
  have h: "card (label ` set [\<lparr>label = ''open'', t = 1\<rparr>, \<lparr>label = ''navigate'', t = 2\<rparr>]
         \<inter> set SCENE_BEATS) < 2"
    by (simp add: SCENE_BEATS_def)
  from h intro_outro_only [OF h, of 9] show ?thesis
    by simp
qed

text \<open>
  C8 (end-to-end example). For the beats \<open>open\<close> at 0, \<open>search\<close> at 6 and \<open>end\<close> at 9 with 9
  seconds of footage: the intro card on \<open>[0, 1.2)\<close>, the clip \<open>open\<close> with \<open>in = 0\<close> and
  \<open>out = 5\<close> on \<open>[1.2, 6.2)\<close>, the card \<open>search\<close> on \<open>[6.2, 6.9)\<close>, the clip \<open>search\<close> with
  \<open>in = 6\<close> and \<open>out = 9\<close> on \<open>[6.9, 9.9)\<close>, the outro card on \<open>[9.9, 11.4)\<close>, and
  \<open>durationSec = 11.4\<close>.
\<close>

theorem build_edl_example:
  "build_edl [\<lparr>label = ''open'', t = 0\<rparr>, \<lparr>label = ''search'', t = 6\<rparr>,
              \<lparr>label = ''end'', t = 9\<rparr>] 9 =
    \<lparr>fps = 30, size_edl = \<lparr>w = 1920, h = 1080\<rparr>, durationSec = 114 / 10,
     inputs_edl = \<lparr>video = ''recordings/raw.mp4''\<rparr>,
     segments =
       [Card ''Token'' (Some ''a minimal text editor'') 0 (12 / 10),
        Clip ''open'' 0 5 (12 / 10) (62 / 10) \<lparr>scaleFrom = 1, scaleTo = 102 / 100\<rparr>,
        Card ''search'' None (62 / 10) (69 / 10),
        Clip ''search'' 6 9 (69 / 10) (99 / 10) \<lparr>scaleFrom = 1, scaleTo = 102 / 100\<rparr>,
        Card ''token-editor.com'' (Some '''') (99 / 10) (114 / 10)],
     transitions =
       [\<lparr>tr_type = ''fade'', tr_at = 12 / 10, tr_dur = 2 / 10\<rparr>,
        \<lparr>tr_type = ''fade'', tr_at = 62 / 10, tr_dur = 2 / 10\<rparr>,
        \<lparr>tr_type = ''fade'', tr_at = 69 / 10, tr_dur = 2 / 10\<rparr>,
        \<lparr>tr_type = ''fade'', tr_at = 99 / 10, tr_dur = 2 / 10\<rparr>]\<rparr>"
  by code_simp

text \<open>
  C9 (one fade per segment but the last). The number of transitions is the number of
  segments minus one, the last segment is the outro card, and the transition after each
  segment before it is a fade.
\<close>

theorem one_fade_per_segment_but_last:
  "length (transitions (build_edl beats raw_duration)) =
     length (segments (build_edl beats raw_duration)) - 1 \<and>
   is_card (last (segments (build_edl beats raw_duration))) \<and>
   card_text (last (segments (build_edl beats raw_duration))) = ''token-editor.com'' \<and>
   (\<forall>i < length (segments (build_edl beats raw_duration)) - 1.
      tr_type (transitions (build_edl beats raw_duration) ! i) = ''fade'')"
proof -
  obtain segs trs p where inv: "builder_inv (segs, trs, p)"
    and e: "build_edl beats raw_duration =
      \<lparr>fps = FPS, size_edl = SIZE, durationSec = py_round (fadd p OUTRO_DURATION) 3,
       inputs_edl = \<lparr>video = ''recordings/raw.mp4''\<rparr>,
       segments = segs @ [Card ''token-editor.com'' (Some '''')
                 (py_round p 3) (py_round (fadd p OUTRO_DURATION) 3)],
       transitions = trs\<rparr>"
    by (rule build_edl_unfold)
  from inv have "fades_inv (segs, trs, p)"
    by (simp add: builder_inv_def)
  then show ?thesis
    by (simp add: e fades_inv_def)
qed

theorem one_fade_per_segment_but_last_witness:
  "(0::nat) < length (segments (build_edl
      [\<lparr>label = ''open'', t = 0\<rparr>, \<lparr>label = ''end'', t = 3\<rparr>] 9)) - 1 \<and>
   tr_type (transitions (build_edl
      [\<lparr>label = ''open'', t = 0\<rparr>, \<lparr>label = ''end'', t = 3\<rparr>] 9) ! 0) = ''fade''"
proof -
  have len: "(0::nat) < length (segments (build_edl
      [\<lparr>label = ''open'', t = 0\<rparr>, \<lparr>label = ''end'', t = 3\<rparr>] 9)) - 1"
    by (simp add: build_edl_two_beats)
  from one_fade_per_segment_but_last [of "[\<lparr>label = ''open'', t = 0\<rparr>, \<lparr>label = ''end'', t = 3\<rparr>]" 9]
  have "\<forall>i < length (segments (build_edl
      [\<lparr>label = ''open'', t = 0\<rparr>, \<lparr>label = ''end'', t = 3\<rparr>] 9)) - 1.
      tr_type (transitions (build_edl
      [\<lparr>label = ''open'', t = 0\<rparr>, \<lparr>label = ''end'', t = 3\<rparr>] 9) ! i) = ''fade''"
    by blast
  with len show ?thesis
    by blast
qed

text \<open>
  C10 (rounding inside the builder). Every timestamp of the returned EDL (the \<open>start\<close> and
  \<open>end\<close> of each segment, the \<open>in\<close> and \<open>out\<close> of each clip, the \<open>at\<close> of each transition
  and \<open>durationSec\<close>) is a value that \<open>round(x, 3)\<close> leaves unchanged: it was rounded when
  the builder stored it.
\<close>

theorem timestamps_rounded:
  "ms_rounded (durationSec (build_edl beats raw_duration)) \<and>
   (\<forall>s \<in> set (segments (build_edl beats raw_duration)).
      ms_rounded (seg_start s) \<and> ms_rounded (seg_end s) \<and>
      (is_clip s \<longrightarrow> ms_rounded (clip_in s) \<and> ms_rounded (clip_out s))) \<and>
   (\<forall>x \<in> set (transitions (build_edl beats raw_duration)). ms_rounded (tr_at x))"
proof -
  obtain segs trs p where inv: "builder_inv (segs, trs, p)"
    and e: "build_edl beats raw_duration =
      \<lparr>fps = FPS, size_edl = SIZE, durationSec = py_round (fadd p OUTRO_DURATION) 3,
       inputs_edl = \<lparr>video = ''recordings/raw.mp4''\<rparr>,
       segments = segs @ [Card ''token-editor.com'' (Some '''')
                 (py_round p 3) (py_round (fadd p OUTRO_DURATION) 3)],
       transitions = trs\<rparr>"
    by (rule build_edl_unfold)
  from inv have "rounded_inv (segs, trs, p)"
    by (simp add: builder_inv_def)
  then show ?thesis
    by (simp add: e rounded_inv_def ms_rounded_py_round)
qed

theorem timestamps_rounded_witness:
  "Clip ''open'' 0 3 (12 / 10) (42 / 10) \<lparr>scaleFrom = 1, scaleTo = 102 / 100\<rparr>
     \<in> set (segments (build_edl
      [\<lparr>label = ''open'', t = 0\<rparr>, \<lparr>label = ''end'', t = 3\<rparr>] 9)) \<and>
   \<lparr>tr_type = ''fade'', tr_at = 42 / 10, tr_dur = 2 / 10\<rparr>
     \<in> set (transitions (build_edl
      [\<lparr>label = ''open'', t = 0\<rparr>, \<lparr>label = ''end'', t = 3\<rparr>] 9)) \<and>
   ms_rounded (42 / 10) \<and> ms_rounded 3"
proof -
  have s: "Clip ''open'' 0 3 (12 / 10) (42 / 10) \<lparr>scaleFrom = 1, scaleTo = 102 / 100\<rparr>
     \<in> set (segments (build_edl
      [\<lparr>label = ''open'', t = 0\<rparr>, \<lparr>label = ''end'', t = 3\<rparr>] 9))"
    and x: "\<lparr>tr_type = ''fade'', tr_at = 42 / 10, tr_dur = 2 / 10\<rparr>
     \<in> set (transitions (build_edl
      [\<lparr>label = ''open'', t = 0\<rparr>, \<lparr>label = ''end'', t = 3\<rparr>] 9))"
    by (simp_all add: build_edl_two_beats)
  from timestamps_rounded [of "[\<lparr>label = ''open'', t = 0\<rparr>, \<lparr>label = ''end'', t = 3\<rparr>]" 9] s
  have "ms_rounded (seg_end (Clip ''open'' 0 3 (12 / 10) (42 / 10)
          \<lparr>scaleFrom = 1, scaleTo = 102 / 100\<rparr>)) \<and>
        ms_rounded (clip_out (Clip ''open'' 0 3 (12 / 10) (42 / 10)
          \<lparr>scaleFrom = 1, scaleTo = 102 / 100\<rparr>))"
    by fastforce
  with s x show ?thesis
    by simp
qed

end
